theory Spec2Isabelle
  imports Complex_Main "HOL-Library.Char_ord" "HOL-Library.List_Lexorder"
    "HOL-Library.Product_Lexorder"
begin

section \<open>The attendance store (src/database.py)\<close>

text \<open>
  The SQLite file holds two tables. A row of \<open>users\<close> is (id, roll_number, name), a row of
  \<open>attendance\<close> is (user_id, date, time, status). The columns \<open>attendance.id\<close> and
  \<open>created_at\<close> are filled by SQLite and read by no statement of the repository; they are
  left out. Dates and times are the strings the code passes (\<open>strftime\<close> output,
  \<open>YYYY-MM-DD\<close> and \<open>HH:MM:SS\<close>); SQLite keeps such text as it is and compares it byte by
  byte, which is the order of \<open>HOL-Library.List_Lexorder\<close> over \<open>HOL-Library.Char_ord\<close>.
  The code never issues \<open>PRAGMA foreign_keys\<close>, so the FOREIGN KEY clause is not enforced:
  the only constraint an INSERT into \<open>attendance\<close> with non-null values can violate is
  \<open>UNIQUE(user_id, date)\<close>.

  A \<open>database\<close> is the two tables as the object's one connection sees them: the rows
  committed and the rows of its open transaction.
\<close>

record user_row =
  u_id :: int
  u_roll_number :: string
  u_name :: string

record attendance_row =
  a_user_id :: int
  a_date :: string
  a_time :: string
  a_status :: string

record database =
  users :: "user_row list"
  attendance :: "attendance_row list"

text \<open>
  \<open>sqlite3.IntegrityError\<close> is caught apart from every other \<open>sqlite3.Error\<close>, which
  carries its message. Whether a statement meets such a fault (locked file, disk or
  connection error) is decided by the environment: each call takes a \<open>store_io\<close> saying
  whether \<open>cursor.execute\<close> raises before it binds the parameters (a closed connection,
  a missing table), raises when it runs the statement, or \<open>conn.commit\<close> raises. A
  statement that raises inserts nothing. A commit that raises, as on a locked database,
  leaves the transaction open: the code never rolls back, so the inserted row stays in
  the connection's view, is met by later statements and is committed with the next
  commit that succeeds.

  \<open>cursor.execute\<close> also raises \<open>OverflowError\<close>, which is no \<open>sqlite3.Error\<close>, when
  it comes to bind a Python int outside SQLite's 64-bit INTEGER.
\<close>

datatype sqlite_error = IntegrityError | OtherError string

datatype py_exception = OverflowError

datatype raised = Uncaught py_exception | Sqlite sqlite_error

datatype store_io = Healthy | PrepareFails string | ExecuteFails string | CommitFails string

text \<open>The two readings of \<open>datetime.now()\<close> a call may take, already formatted.\<close>

record clock =
  now_date :: string
  now_time :: string

text \<open>What the code prints; one constructor per \<open>print\<close> the model follows.\<close>

datatype console_line =
    ErrorMarkingAttendance string
  | ErrorFetchingAttendance string
  | ErrorFetchingAllRecords string
  | ErrorFetchingUsers string
  | NoTrainedModelFound
  | ErrorLoadingRecognizer string
  | RecognizerLoaded nat
  | CouldNotOpenWebcam
  | FailedToCaptureFrame
  | AttendanceMarkedFor string string string
  | SessionEnded nat

text \<open>\<open>create_tables\<close> on a new file: both tables exist and are empty.\<close>

definition create_tables :: database where
  "create_tables = \<lparr>users = [], attendance = []\<rparr>"

text \<open>An argument left at its default \<open>None\<close> is replaced by the clock's reading.\<close>

definition resolve :: "string option \<Rightarrow> string \<Rightarrow> string" where
  "resolve given now = (case given of None \<Rightarrow> now | Some v \<Rightarrow> v)"

text \<open>The check SQLite makes for \<open>UNIQUE(user_id, date)\<close> before it inserts a row.\<close>

definition unique_violation :: "attendance_row list \<Rightarrow> int \<Rightarrow> string \<Rightarrow> bool" where
  "unique_violation rows uid d = list_ex (\<lambda>r. a_user_id r = uid \<and> a_date r = d) rows"

text \<open>The integers SQLite's INTEGER holds.\<close>

definition sqlite_integer :: "int \<Rightarrow> bool" where
  "sqlite_integer i \<longleftrightarrow> - (2 ^ 63) \<le> i \<and> i < 2 ^ 63"

text \<open>
  \<open>cursor.execute("INSERT INTO attendance (user_id, date, time) VALUES (?, ?, ?)", ...)\<close>;
  \<open>status\<close> takes its default \<open>'Present'\<close>.
\<close>

definition execute_insert ::
  "store_io \<Rightarrow> database \<Rightarrow> int \<Rightarrow> string \<Rightarrow> string \<Rightarrow> raised + database" where
  "execute_insert io store uid d t =
     (case io of
        PrepareFails e \<Rightarrow> Inl (Sqlite (OtherError e))
      | _ \<Rightarrow>
          if \<not> sqlite_integer uid then Inl (Uncaught OverflowError)
          else
            (case io of
               ExecuteFails e \<Rightarrow> Inl (Sqlite (OtherError e))
             | _ \<Rightarrow>
                 if unique_violation (attendance store) uid d then Inl (Sqlite IntegrityError)
                 else Inr (store\<lparr>attendance := attendance store @
                        [\<lparr>a_user_id = uid, a_date = d, a_time = t, a_status = ''Present''\<rparr>]\<rparr>)))"

text \<open>\<open>conn.commit()\<close>: the error it raises, if any.\<close>

definition commit :: "store_io \<Rightarrow> sqlite_error option" where
  "commit io = (case io of CommitFails e \<Rightarrow> Some (OtherError e) | _ \<Rightarrow> None)"

text \<open>
  What an \<open>except\<close> clause of \<open>mark_attendance\<close> does with a \<open>sqlite3.Error\<close>, the
  store being as the \<open>try\<close> block left it.
\<close>

definition on_sqlite_error ::
  "sqlite_error \<Rightarrow> database \<Rightarrow> bool \<times> database \<times> console_line list" where
  "on_sqlite_error err store =
     (case err of
        IntegrityError \<Rightarrow> (False, store, [])
      | OtherError e \<Rightarrow> (False, store, [ErrorMarkingAttendance e]))"

text \<open>
  \<open>mark_attendance(user_id, date=None, time=None)\<close>: either the exception that leaves
  the call, or the returned bool, the store afterwards and the lines printed.
\<close>

definition mark_attendance ::
  "database \<Rightarrow> store_io \<Rightarrow> clock \<Rightarrow> int \<Rightarrow> string option \<Rightarrow> string option
     \<Rightarrow> py_exception + (bool \<times> database \<times> console_line list)" where
  "mark_attendance store io clk user_id date time =
     (let d = resolve date (now_date clk);
          t = resolve time (now_time clk)
      in case execute_insert io store user_id d t of
           Inl (Uncaught exc) \<Rightarrow> Inl exc
         | Inl (Sqlite err) \<Rightarrow> Inr (on_sqlite_error err store)
         | Inr store1 \<Rightarrow>
             (case commit io of
                Some err \<Rightarrow> Inr (on_sqlite_error err store1)
              | None \<Rightarrow> Inr (True, store1, [])))"


text \<open>
  One call of \<open>mark_attendance\<close> as data, and a sequence of calls on one store; a call
  that raises leaves the store to the calls after it.
\<close>

record mark_call =
  c_io :: store_io
  c_clock :: clock
  c_user_id :: int
  c_date :: "string option"
  c_time :: "string option"

definition mark_call_on ::
  "database \<Rightarrow> mark_call \<Rightarrow> py_exception + (bool \<times> database \<times> console_line list)" where
  "mark_call_on store c =
     mark_attendance store (c_io c) (c_clock c) (c_user_id c) (c_date c) (c_time c)"

fun mark_all :: "database \<Rightarrow> mark_call list \<Rightarrow> (py_exception + bool) list \<times> database" where
  "mark_all store [] = ([], store)"
| "mark_all store (c # cs) =
     (case mark_call_on store c of
        Inl exc \<Rightarrow> (case mark_all store cs of (rs, store2) \<Rightarrow> (Inl exc # rs, store2))
      | Inr (ok, store1, out) \<Rightarrow>
          (case mark_all store1 cs of (rs, store2) \<Rightarrow> (Inr ok # rs, store2)))"

text \<open>The key a call writes under, and how many attendance records carry the key (i, d).\<close>

definition call_date :: "mark_call \<Rightarrow> string" where
  "call_date c = resolve (c_date c) (now_date (c_clock c))"

definition records_for :: "database \<Rightarrow> int \<Rightarrow> string \<Rightarrow> nat" where
  "records_for store i d =
     length (filter (\<lambda>r. a_user_id r = i \<and> a_date r = d) (attendance store))"

subsection \<open>Queries\<close>

text \<open>
  \<open>FROM attendance a JOIN users u ON a.user_id = u.id\<close>: every attendance row paired with
  every user row of that id (one at most when ids are unique, none when the user is
  missing).
\<close>

definition join_users :: "user_row list \<Rightarrow> attendance_row \<Rightarrow> (attendance_row \<times> user_row) list" where
  "join_users us a = map (\<lambda>u. (a, u)) (filter (\<lambda>u. u_id u = a_user_id a) us)"

definition joined :: "database \<Rightarrow> (attendance_row \<times> user_row) list" where
  "joined store = concat (map (join_users (users store)) (attendance store))"

text \<open>
  \<open>get_attendance_by_date(date=None)\<close>: rows (name, roll_number, time, status) with
  \<open>WHERE a.date = ? ORDER BY a.time\<close>; a \<open>sqlite3.Error\<close> is printed and \<open>[]\<close> returned.
\<close>

definition get_attendance_by_date ::
  "database \<Rightarrow> store_io \<Rightarrow> clock \<Rightarrow> string option
     \<Rightarrow> (string \<times> string \<times> string \<times> string) list \<times> console_line list" where
  "get_attendance_by_date store io clk date =
     (let d = resolve date (now_date clk)
      in case io of
           PrepareFails e \<Rightarrow> ([], [ErrorFetchingAttendance e])
         | ExecuteFails e \<Rightarrow> ([], [ErrorFetchingAttendance e])
         | _ \<Rightarrow>
             (map (\<lambda>(a, u). (u_name u, u_roll_number u, a_time a, a_status a))
                (sort_key (\<lambda>(a, u). a_time a)
                   (filter (\<lambda>(a, u). a_date a = d) (joined store))), []))"

text \<open>
  \<open>get_all_attendance_records()\<close>: rows (name, roll_number, date, time, status) with
  \<open>ORDER BY a.date DESC, a.time DESC\<close>.
\<close>

definition get_all_attendance_records ::
  "database \<Rightarrow> store_io
     \<Rightarrow> (string \<times> string \<times> string \<times> string \<times> string) list \<times> console_line list" where
  "get_all_attendance_records store io =
     (case io of
        PrepareFails e \<Rightarrow> ([], [ErrorFetchingAllRecords e])
      | ExecuteFails e \<Rightarrow> ([], [ErrorFetchingAllRecords e])
      | _ \<Rightarrow>
          (map (\<lambda>(a, u). (u_name u, u_roll_number u, a_date a, a_time a, a_status a))
             (rev (sort_key (\<lambda>(a, u). (a_date a, a_time a)) (joined store))), []))"

text \<open>\<open>get_all_users()\<close>: \<open>SELECT id, roll_number, name FROM users ORDER BY name\<close>.\<close>

definition get_all_users ::
  "database \<Rightarrow> store_io \<Rightarrow> (int \<times> string \<times> string) list \<times> console_line list" where
  "get_all_users store io =
     (case io of
        PrepareFails e \<Rightarrow> ([], [ErrorFetchingUsers e])
      | ExecuteFails e \<Rightarrow> ([], [ErrorFetchingUsers e])
      | _ \<Rightarrow> (map (\<lambda>u. (u_id u, u_roll_number u, u_name u)) (sort_key u_name (users store)), []))"

text \<open>The columns of the rows the two attendance queries return.\<close>

definition by_date_time :: "string \<times> string \<times> string \<times> string \<Rightarrow> string" where
  "by_date_time row = (case row of (nm, roll, t, status) \<Rightarrow> t)"

definition all_date :: "string \<times> string \<times> string \<times> string \<times> string \<Rightarrow> string" where
  "all_date row = (case row of (nm, roll, d, t, status) \<Rightarrow> d)"

definition all_time :: "string \<times> string \<times> string \<times> string \<times> string \<Rightarrow> string" where
  "all_time row = (case row of (nm, roll, d, t, status) \<Rightarrow> t)"

text \<open>A row comes before another in \<open>ORDER BY date DESC, time DESC\<close> (ties allowed).\<close>

definition date_time_desc ::
  "string \<times> string \<times> string \<times> string \<times> string
     \<Rightarrow> string \<times> string \<times> string \<times> string \<times> string \<Rightarrow> bool" where
  "date_time_desc x y \<longleftrightarrow>
     all_date y < all_date x \<or> (all_date x = all_date y \<and> all_time y \<le> all_time x)"

section \<open>The attendance session (src/attendance.py)\<close>

text \<open>
  \<open>AttendanceSystem\<close> keeps the store, the label map built by \<open>load_recognizer\<close> (a dict
  from user id to \<open>{'roll_number', 'name'}\<close>; \<open>None\<close> before the first load, when nothing
  reads it), the threshold and \<open>marked_today\<close>. Three more fields record what the object
  does to the outside: the lines printed, what is drawn over each face, and every call of
  \<open>db.mark_attendance\<close> that returned, with the label passed and the bool returned.

  A confidence is the float \<open>recognizer.predict\<close> returns, read as the real number it
  denotes; Python compares it with the threshold exactly.
\<close>

record user_info =
  roll_number :: string
  name :: string

datatype overlay =
    NameAndConfidence string real
  | AttendanceMarked
  | AlreadyMarked
  | Unknown

record attendance_system =
  db :: database
  label_map :: "int \<rightharpoonup> user_info"
  recognition_threshold :: real
  marked_today :: "int set"
  console :: "console_line list"
  screen :: "overlay list"
  ledger_calls :: "(int \<times> bool) list"

text \<open>\<open>__init__(db)\<close>: threshold 70, nothing marked.\<close>

definition init_system :: "database \<Rightarrow> attendance_system" where
  "init_system store =
     \<lparr>db = store, label_map = Map.empty, recognition_threshold = 70, marked_today = {},
      console = [], screen = [], ledger_calls = []\<rparr>"

text \<open>
  What \<open>load_recognizer\<close> meets: whether \<open>face_recognizer.yml\<close> exists, whether creating
  or reading the recognizer raises (with the message), and the store's answer to
  \<open>get_all_users\<close>.
\<close>

record recognizer_env =
  model_file_exists :: bool
  load_raises :: "string option"
  users_io :: store_io

definition build_label_map :: "(int \<times> string \<times> string) list \<Rightarrow> (int \<rightharpoonup> user_info)" where
  "build_label_map us =
     foldl (\<lambda>m row. case row of (user_id, roll, nm) \<Rightarrow>
              m(user_id \<mapsto> \<lparr>roll_number = roll, name = nm\<rparr>)) Map.empty us"

definition load_recognizer :: "recognizer_env \<Rightarrow> attendance_system \<Rightarrow> bool \<times> attendance_system" where
  "load_recognizer env s =
     (if \<not> model_file_exists env then
        (False, s\<lparr>console := console s @ [NoTrainedModelFound]\<rparr>)
      else
        (case load_raises env of
           Some e \<Rightarrow> (False, s\<lparr>console := console s @ [ErrorLoadingRecognizer e]\<rparr>)
         | None \<Rightarrow>
             (case get_all_users (db s) (users_io env) of
                (us, out) \<Rightarrow>
                  (True, s\<lparr>label_map := build_label_map us,
                           console := console s @ out @
                             [RecognizerLoaded (length (remdups (map fst us)))]\<rparr>))))"

text \<open>
  The decision taken for one face (lines 115 to 119): the confidence is compared with the
  threshold, then the label is looked up; a stored \<open>user_info\<close> dict is never empty, so
  \<open>if user_info\<close> asks whether the label is a key of the map.
\<close>

datatype decision = Accepted int | Rejected

definition decide :: "(int \<rightharpoonup> user_info) \<Rightarrow> real \<Rightarrow> int \<Rightarrow> real \<Rightarrow> decision" where
  "decide lm threshold label confidence =
     (if confidence < threshold then
        (case lm label of Some user_info \<Rightarrow> Accepted label | None \<Rightarrow> Rejected)
      else Rejected)"

text \<open>
  One detected face: the label and confidence predicted for it, and what a call of
  \<open>mark_attendance\<close> made for it would meet (clock and store).
\<close>

record face =
  f_label :: int
  f_confidence :: real
  f_clock :: clock
  f_io :: store_io

text \<open>
  The body of \<open>for (x, y, w, h) in faces\<close> (lines 107 to 179). An exception that leaves
  \<open>mark_attendance\<close> is caught nowhere in \<open>start_attendance\<close> and leaves it too.
\<close>

definition process_face :: "attendance_system \<Rightarrow> face \<Rightarrow> py_exception + attendance_system" where
  "process_face s f =
     (if f_confidence f < recognition_threshold s then
        (case label_map s (f_label f) of
           None \<Rightarrow> Inr s
         | Some user_info \<Rightarrow>
             (let s1 = s\<lparr>screen := screen s @ [NameAndConfidence (name user_info) (f_confidence f)]\<rparr>
              in if f_label f \<notin> marked_today s1 then
                   (case mark_attendance (db s1) (f_io f) (f_clock f) (f_label f) None None of
                      Inl exc \<Rightarrow> Inl exc
                    | Inr (success, store1, out) \<Rightarrow>
                        (let s2 = s1\<lparr>db := store1, console := console s1 @ out,
                                     ledger_calls := ledger_calls s1 @ [(f_label f, success)]\<rparr>
                         in if success then
                              Inr (s2\<lparr>marked_today := insert (f_label f) (marked_today s2),
                                 console := console s2 @
                                   [AttendanceMarkedFor (name user_info) (roll_number user_info)
                                      (now_time (f_clock f))],
                                 screen := screen s2 @ [AttendanceMarked]\<rparr>)
                            else Inr (s2\<lparr>screen := screen s2 @ [AlreadyMarked]\<rparr>)))
                 else Inr s1))
      else Inr (s\<lparr>screen := screen s @ [Unknown]\<rparr>))"

text \<open>The \<open>for\<close> loop over the faces of one frame.\<close>

fun process_faces :: "attendance_system \<Rightarrow> face list \<Rightarrow> py_exception + attendance_system" where
  "process_faces s [] = Inr s"
| "process_faces s (f # fs) =
     (case process_face s f of
        Inl exc \<Rightarrow> Inl exc
      | Inr s1 \<Rightarrow> process_faces s1 fs)"

text \<open>
  The local state of \<open>start_attendance\<close>: the object, \<open>today\<close> (line 79) and
  \<open>frame_count\<close>; \<open>running\<close> is false once a \<open>break\<close> has left the loop.
\<close>

record session =
  sys :: attendance_system
  today :: string
  frame_count :: nat
  running :: bool

record session_env =
  recognizer :: recognizer_env
  cap_is_opened :: bool
  start_clock :: clock

text \<open>
  Lines 61 to 84. The call returns at line 62 when the recognizer does not load, before
  \<open>cv2.VideoCapture(0)\<close>, and at line 76 when the webcam does not open.
\<close>

datatype start_result =
    ReturnedBeforeCapture attendance_system
  | ReturnedNoWebcam attendance_system
  | Started session

definition begin_session :: "session_env \<Rightarrow> attendance_system \<Rightarrow> start_result" where
  "begin_session env s =
     (case load_recognizer (recognizer env) s of
        (loaded, s1) \<Rightarrow>
          if \<not> loaded then ReturnedBeforeCapture s1
          else if \<not> cap_is_opened env then
            ReturnedNoWebcam (s1\<lparr>console := console s1 @ [CouldNotOpenWebcam]\<rparr>)
          else
            Started \<lparr>sys = s1\<lparr>marked_today := {}, ledger_calls := []\<rparr>,
                     today = now_date (start_clock env), frame_count = 0, running = True\<rparr>)"

text \<open>
  One turn of \<open>while True\<close> is driven by what \<open>cap.read()\<close> gives: no frame, or a frame
  with its detected faces and whether \<open>q\<close> is pressed afterwards. The loop has no bound of
  its own, so it is run over the captures observed so far: when they are used up without
  a \<open>break\<close> the session is still running.
\<close>

datatype capture = ReadFailed | Frame "face list" bool

fun attendance_loop :: "session \<Rightarrow> capture list \<Rightarrow> py_exception + session" where
  "attendance_loop s [] = Inr s"
| "attendance_loop s (ReadFailed # cs) =
     Inr (s\<lparr>sys := (sys s)\<lparr>console := console (sys s) @ [FailedToCaptureFrame]\<rparr>,
            running := False\<rparr>)"
| "attendance_loop s (Frame faces quit # cs) =
     (case process_faces (sys s) faces of
        Inl exc \<Rightarrow> Inl exc
      | Inr t \<Rightarrow>
          (let s1 = s\<lparr>sys := t, frame_count := frame_count s + 1\<rparr>
           in if quit then Inr (s1\<lparr>running := False\<rparr>) else attendance_loop s1 cs))"

text \<open>
  \<open>start_attendance()\<close>: \<open>None\<close> when the loop has not left by the end of the captures,
  else the exception that leaves the call or the object as the call returns it (the
  summary printed after the loop).
\<close>

definition start_attendance ::
  "session_env \<Rightarrow> capture list \<Rightarrow> attendance_system
     \<Rightarrow> (py_exception + attendance_system) option" where
  "start_attendance env cs s =
     (case begin_session env s of
        ReturnedBeforeCapture s1 \<Rightarrow> Some (Inr s1)
      | ReturnedNoWebcam s1 \<Rightarrow> Some (Inr s1)
      | Started ses \<Rightarrow>
          (case attendance_loop ses cs of
             Inl exc \<Rightarrow> Some (Inl exc)
           | Inr ses1 \<Rightarrow>
               if running ses1 then None
               else Some (Inr ((sys ses1)\<lparr>console := console (sys ses1) @
                            [SessionEnded (card (marked_today (sys ses1)))]\<rparr>))))"

text \<open>The faces the loop processes over a list of captures, in order.\<close>

fun faces_seen :: "capture list \<Rightarrow> face list" where
  "faces_seen [] = []"
| "faces_seen (ReadFailed # cs) = []"
| "faces_seen (Frame faces quit # cs) = (if quit then faces else faces @ faces_seen cs)"

text \<open>The calls of \<open>mark_attendance\<close> made for label i, and those among them that returned True.\<close>

definition calls_for :: "attendance_system \<Rightarrow> int \<Rightarrow> (int \<times> bool) list" where
  "calls_for s i = filter (\<lambda>c. fst c = i) (ledger_calls s)"

definition successes_for :: "attendance_system \<Rightarrow> int \<Rightarrow> nat" where
  "successes_for s i = length (filter (\<lambda>c. c = (i, True)) (ledger_calls s))"

text \<open>
  The session as it stands after the captures observed so far; \<open>None\<close> when
  \<open>start_attendance\<close> returned before the loop or an exception has left it. The
  projections read the cache, the calls made, the store and the session's date off it.
\<close>

definition run_session :: "session_env \<Rightarrow> capture list \<Rightarrow> attendance_system \<Rightarrow> session option" where
  "run_session env cs s =
     (case begin_session env s of
        Started ses \<Rightarrow> (case attendance_loop ses cs of Inl exc \<Rightarrow> None | Inr ses1 \<Rightarrow> Some ses1)
      | ReturnedBeforeCapture s1 \<Rightarrow> None
      | ReturnedNoWebcam s1 \<Rightarrow> None)"

definition cache_of :: "session option \<Rightarrow> int set option" where
  "cache_of r = map_option (marked_today \<circ> sys) r"

definition calls_of :: "session option \<Rightarrow> (int \<times> bool) list option" where
  "calls_of r = map_option (ledger_calls \<circ> sys) r"

definition store_of :: "session option \<Rightarrow> database option" where
  "store_of r = map_option (db \<circ> sys) r"

definition date_of :: "session option \<Rightarrow> string option" where
  "date_of r = map_option today r"

text \<open>Whether the statement itself raises (a query makes no commit).\<close>

definition execute_raises :: "store_io \<Rightarrow> bool" where
  "execute_raises io =
     (case io of PrepareFails e \<Rightarrow> True | ExecuteFails e \<Rightarrow> True | _ \<Rightarrow> False)"

section \<open>Example data\<close>

definition morning :: clock where
  "morning = \<lparr>now_date = ''2024-01-10'', now_time = ''09:00:00''\<rparr>"

definition alice :: user_row where
  "alice = \<lparr>u_id = 1, u_roll_number = ''R100'', u_name = ''Alice''\<rparr>"

definition alice_present :: attendance_row where
  "alice_present =
     \<lparr>a_user_id = 1, a_date = ''2024-01-10'', a_time = ''09:00:00'', a_status = ''Present''\<rparr>"

definition store_enrolled :: database where
  "store_enrolled = \<lparr>users = [alice], attendance = []\<rparr>"

definition store_marked :: database where
  "store_marked = \<lparr>users = [alice], attendance = [alice_present]\<rparr>"

definition call_at :: "store_io \<Rightarrow> string \<Rightarrow> mark_call" where
  "call_at io t =
     \<lparr>c_io = io, c_clock = morning, c_user_id = 1, c_date = Some ''2024-01-10'', c_time = Some t\<rparr>"

definition bob :: user_row where
  "bob = \<lparr>u_id = 2, u_roll_number = ''R200'', u_name = ''Bob''\<rparr>"

definition store_three :: database where
  "store_three = \<lparr>users = [alice, bob], attendance =
     [alice_present,
      \<lparr>a_user_id = 2, a_date = ''2024-01-10'', a_time = ''08:45:10'', a_status = ''Present''\<rparr>,
      \<lparr>a_user_id = 1, a_date = ''2024-01-11'', a_time = ''09:02:00'', a_status = ''Present''\<rparr>]\<rparr>"

definition ready_recognizer :: recognizer_env where
  "ready_recognizer = \<lparr>model_file_exists = True, load_raises = None, users_io = Healthy\<rparr>"

definition good_env :: session_env where
  "good_env = \<lparr>recognizer = ready_recognizer, cap_is_opened = True, start_clock = morning\<rparr>"

definition alice_face :: face where
  "alice_face = \<lparr>f_label = 1, f_confidence = 45, f_clock = morning, f_io = Healthy\<rparr>"

definition late_evening :: clock where
  "late_evening = \<lparr>now_date = ''2024-01-10'', now_time = ''23:59:58''\<rparr>"

definition after_midnight :: clock where
  "after_midnight = \<lparr>now_date = ''2024-01-11'', now_time = ''00:00:01''\<rparr>"

definition late_env :: session_env where
  "late_env = \<lparr>recognizer = ready_recognizer, cap_is_opened = True, start_clock = late_evening\<rparr>"

definition alice_face_after_midnight :: face where
  "alice_face_after_midnight =
     \<lparr>f_label = 1, f_confidence = 45, f_clock = after_midnight, f_io = Healthy\<rparr>"

definition stranger_face :: face where
  "stranger_face = \<lparr>f_label = 1, f_confidence = 85, f_clock = morning, f_io = Healthy\<rparr>"

definition alice_map :: "int \<rightharpoonup> user_info" where
  "alice_map = build_label_map [(1, ''R100'', ''Alice'')]"

definition loaded_system :: "database \<Rightarrow> attendance_system" where
  "loaded_system store = (init_system store)\<lparr>label_map := alice_map\<rparr>"

definition stale_system :: attendance_system where
  "stale_system = (init_system store_marked)\<lparr>marked_today := {1, 2}\<rparr>"

definition no_model_env :: session_env where
  "no_model_env =
     \<lparr>recognizer = \<lparr>model_file_exists = False, load_raises = None, users_io = Healthy\<rparr>,
      cap_is_opened = True, start_clock = morning\<rparr>"

section \<open>Properties of the store\<close>

lemmas store_examples =
  morning_def alice_def alice_present_def store_enrolled_def store_marked_def call_at_def

lemmas store_defs =
  mark_call_on_def mark_attendance_def execute_insert_def commit_def on_sqlite_error_def
  resolve_def unique_violation_def call_date_def sqlite_integer_def

lemma unique_violation_iff:
  "unique_violation rows uid d \<longleftrightarrow> (\<exists>r \<in> set rows. a_user_id r = uid \<and> a_date r = d)"
  by (simp add: unique_violation_def list_ex_iff)

lemma unique_violation_records_for:
  "unique_violation (attendance store) i d \<longleftrightarrow> 0 < records_for store i d"
  by (auto simp: unique_violation_iff records_for_def filter_empty_conv
      simp flip: length_greater_0_conv)

lemma records_for_append:
  "records_for (store\<lparr>attendance := attendance store @ [r]\<rparr>) i d =
     records_for store i d + (if a_user_id r = i \<and> a_date r = d then 1 else 0)"
  by (simp add: records_for_def)


lemma mark_attendance_prepare_fails:
  "mark_attendance store (PrepareFails e) clk uid date time
     = Inr (False, store, [ErrorMarkingAttendance e])"
  by (simp add: mark_attendance_def execute_insert_def on_sqlite_error_def)

lemma mark_attendance_execute_fails:
  "sqlite_integer uid \<Longrightarrow>
     mark_attendance store (ExecuteFails e) clk uid date time
       = Inr (False, store, [ErrorMarkingAttendance e])"
  by (simp add: mark_attendance_def execute_insert_def on_sqlite_error_def)

lemma mark_attendance_duplicate:
  "sqlite_integer uid \<Longrightarrow>
   unique_violation (attendance store) uid (resolve date (now_date clk)) \<Longrightarrow>
     mark_attendance store Healthy clk uid date time = Inr (False, store, []) \<and>
     mark_attendance store (CommitFails e) clk uid date time = Inr (False, store, [])"
  by (simp add: mark_attendance_def execute_insert_def on_sqlite_error_def)

lemma mark_attendance_fresh:
  "sqlite_integer uid \<Longrightarrow>
   \<not> unique_violation (attendance store) uid (resolve date (now_date clk)) \<Longrightarrow>
     mark_attendance store Healthy clk uid date time =
       Inr (True, store\<lparr>attendance := attendance store @
              [\<lparr>a_user_id = uid, a_date = resolve date (now_date clk),
                a_time = resolve time (now_time clk), a_status = ''Present''\<rparr>]\<rparr>, []) \<and>
     mark_attendance store (CommitFails e) clk uid date time =
       Inr (False, store\<lparr>attendance := attendance store @
              [\<lparr>a_user_id = uid, a_date = resolve date (now_date clk),
                a_time = resolve time (now_time clk), a_status = ''Present''\<rparr>]\<rparr>,
            [ErrorMarkingAttendance e])"
  by (simp add: mark_attendance_def execute_insert_def commit_def on_sqlite_error_def)

lemma mark_attendance_returns:
  assumes "sqlite_integer uid"
  shows "\<exists>ok store1 out. mark_attendance store io clk uid date time = Inr (ok, store1, out)"
proof (cases "unique_violation (attendance store) uid (resolve date (now_date clk))")
  case True
  with assms show ?thesis
    by (cases io)
       (auto simp: mark_attendance_prepare_fails mark_attendance_execute_fails
          mark_attendance_duplicate)
next
  case False
  with assms show ?thesis
    by (cases io)
       (auto simp: mark_attendance_prepare_fails mark_attendance_execute_fails
          mark_attendance_fresh)
qed


lemma mark_attendance_store:
  assumes "mark_attendance store io clk uid date time = Inr (ok, store1, out)"
  shows "store1 = store \<or>
         (\<not> unique_violation (attendance store) uid (resolve date (now_date clk)) \<and>
          store1 = store\<lparr>attendance := attendance store @
            [\<lparr>a_user_id = uid, a_date = resolve date (now_date clk),
              a_time = resolve time (now_time clk), a_status = ''Present''\<rparr>]\<rparr>)"
  using assms
  by (auto simp: mark_attendance_def execute_insert_def commit_def on_sqlite_error_def Let_def
      split: store_io.splits if_splits)


lemma mark_attendance_keeps_unique:
  assumes inv: "\<forall>i d. records_for store i d \<le> 1"
    and run: "mark_attendance store io clk uid date time = Inr (ok, store1, out)"
  shows "records_for store1 i d \<le> 1"
  using mark_attendance_store [OF run]
proof
  assume "store1 = store"
  with inv show ?thesis by simp
next
  assume new: "\<not> unique_violation (attendance store) uid (resolve date (now_date clk)) \<and>
          store1 = store\<lparr>attendance := attendance store @
            [\<lparr>a_user_id = uid, a_date = resolve date (now_date clk),
              a_time = resolve time (now_time clk), a_status = ''Present''\<rparr>]\<rparr>"
  then have "records_for store uid (resolve date (now_date clk)) = 0"
    by (simp add: unique_violation_records_for)
  with inv new show ?thesis
    by (auto simp: records_for_append)
qed

lemma mark_all_keeps_unique:
  "\<forall>i d. records_for store i d \<le> 1 \<Longrightarrow> records_for (snd (mark_all store cs)) i d \<le> 1"
proof (induction cs arbitrary: store i d)
  case Nil
  then show ?case by simp
next
  case (Cons c cs)
  show ?case
  proof (cases "mark_call_on store c")
    case (Inl exc)
    with Cons.IH [OF Cons.prems, of i d] show ?thesis
      by (cases "mark_all store cs") simp
  next
    case (Inr r)
    then obtain ok store1 out where step: "mark_call_on store c = Inr (ok, store1, out)"
      by (cases r) auto
    have "\<forall>i d. records_for store1 i d \<le> 1"
      using mark_attendance_keeps_unique [OF Cons.prems] step
      by (auto simp: mark_call_on_def)
    from Cons.IH [OF this, of i d] step show ?thesis
      by (cases "mark_all store1 cs") simp
  qed
qed

text \<open>
  C1. For every identity i and date d the attendance store holds at most one record with
  key (i, d): this is so after any sequence of \<open>mark_attendance\<close> calls (any identities,
  dates, times and store faults) on the store \<open>create_tables\<close> makes, and such a sequence
  preserves the property from any store that has it.
\<close>

theorem attendance_key_unique:
  "records_for (snd (mark_all create_tables cs)) i d \<le> 1 \<and>
   ((\<forall>j e. records_for store j e \<le> 1) \<longrightarrow> records_for (snd (mark_all store cs)) i d \<le> 1)"
proof
  have "\<forall>j e. records_for create_tables j e \<le> 1"
    by (simp add: records_for_def create_tables_def)
  then show "records_for (snd (mark_all create_tables cs)) i d \<le> 1"
    by (rule mark_all_keeps_unique)
  show "(\<forall>j e. records_for store j e \<le> 1) \<longrightarrow> records_for (snd (mark_all store cs)) i d \<le> 1"
    using mark_all_keeps_unique by blast
qed

theorem attendance_key_unique_witness:
  "(\<forall>j e. records_for store_marked j e \<le> 1) \<and>
   records_for (snd (mark_all store_marked
       [call_at Healthy ''09:30:00'', call_at (CommitFails ''database is locked'') ''10:00:00'']))
     1 ''2024-01-10'' \<le> 1"
proof -
  have h: "\<forall>j e. records_for store_marked j e \<le> 1"
    by (simp add: records_for_def store_examples)
  with attendance_key_unique [where store = store_marked and i = 1 and d = "''2024-01-10''"
      and cs = "[call_at Healthy ''09:30:00'', call_at (CommitFails ''database is locked'') ''10:00:00'']"]
  show ?thesis by blast
qed

lemma mark_all_duplicates:
  assumes "unique_violation (attendance store) i d" and "sqlite_integer i"
    and "\<forall>c \<in> set cs. c_user_id c = i \<and> call_date c = d"
  shows "mark_all store cs = (replicate (length cs) (Inr False), store)"
  using assms(3)
proof (induction cs)
  case Nil
  then show ?case by simp
next
  case (Cons c cs)
  from Cons.prems assms(1)
  have dup: "unique_violation (attendance store) (c_user_id c)
               (resolve (c_date c) (now_date (c_clock c)))"
    and int: "sqlite_integer (c_user_id c)"
    using assms(2) by (simp_all add: call_date_def)
  have "\<exists>out. mark_call_on store c = Inr (False, store, out)"
    using mark_attendance_duplicate [OF int dup] mark_attendance_execute_fails [OF int]
      mark_attendance_prepare_fails
    by (cases "c_io c") (simp_all add: mark_call_on_def)
  with Cons show ?case by auto
qed

text \<open>
  C2, as amended. For an identity SQLite's INTEGER holds, when the store raises no
  \<open>sqlite3.Error\<close> on it, the first call of \<open>mark_attendance\<close> for a pair (i, d) returns
  True and inserts the record; every later call for the same pair, whatever its time and
  whatever fault it meets, returns False and leaves the store, and with it the stored
  time, unchanged.
\<close>

theorem first_call_records_later_calls_do_not:
  assumes "sqlite_integer i"
    and "\<not> unique_violation (attendance store) i (resolve date (now_date clk))"
    and "\<forall>c \<in> set cs. c_user_id c = i \<and> call_date c = resolve date (now_date clk)"
    and "after = store\<lparr>attendance := attendance store @
            [\<lparr>a_user_id = i, a_date = resolve date (now_date clk),
              a_time = resolve time (now_time clk), a_status = ''Present''\<rparr>]\<rparr>"
  shows "mark_attendance store Healthy clk i date time = Inr (True, after, []) \<and>
         mark_all after cs = (replicate (length cs) (Inr False), after)"
proof
  from assms(1,2,4) show "mark_attendance store Healthy clk i date time = Inr (True, after, [])"
    by (simp add: mark_attendance_fresh)
  have "unique_violation (attendance after) i (resolve date (now_date clk))"
    by (simp add: assms(4) unique_violation_iff)
  then show "mark_all after cs = (replicate (length cs) (Inr False), after)"
    using assms(1,3) by (rule mark_all_duplicates)
qed

theorem first_call_records_later_calls_do_not_witness:
  "sqlite_integer 1 \<and>
   \<not> unique_violation (attendance store_enrolled) 1 ''2024-01-10'' \<and>
   mark_attendance store_enrolled Healthy morning 1 None None = Inr (True, store_marked, []) \<and>
   mark_all store_marked [call_at Healthy ''09:30:00'', call_at (CommitFails ''database is locked'') ''10:00:00'']
     = ([Inr False, Inr False], store_marked)"
  using first_call_records_later_calls_do_not [where store = store_enrolled and i = 1
      and date = None and clk = morning and time = None and after = store_marked
      and cs = "[call_at Healthy ''09:30:00'', call_at (CommitFails ''database is locked'') ''10:00:00'']"]
  by (simp add: store_examples unique_violation_def resolve_def call_date_def sqlite_integer_def)

text \<open>
  The claim as stated fails when the statement of the first call raises: the call returns
  False, and the call after it returns True. It fails as well for an identity from
  \<open>2 ^ 63\<close> on, where the call raises \<open>OverflowError\<close>.
\<close>

theorem first_call_may_fail_counterexample:
  "mark_all store_enrolled [call_at (ExecuteFails ''disk I/O error'') ''09:00:00'', call_at Healthy ''09:30:00'']
     = ([Inr False, Inr True],
        \<lparr>users = [alice], attendance =
           [\<lparr>a_user_id = 1, a_date = ''2024-01-10'', a_time = ''09:30:00'', a_status = ''Present''\<rparr>]\<rparr>) \<and>
   mark_attendance store_enrolled Healthy morning 9223372036854775808 None None = Inl OverflowError"
  by (simp add: store_examples store_defs)




section \<open>Properties of the queries\<close>

lemma set_joined:
  "set (joined store) =
     {(a, u). a \<in> set (attendance store) \<and> u \<in> set (users store) \<and> u_id u = a_user_id a}"
  by (auto simp: joined_def join_users_def)

lemma by_date_sorted:
  "sorted (map by_date_time (fst (get_attendance_by_date store io clk date)))"
proof -
  have key: "by_date_time \<circ> (\<lambda>(a, u). (u_name u, u_roll_number u, a_time a, a_status a))
               = (\<lambda>(a, u). a_time a)"
    by (auto simp: fun_eq_iff by_date_time_def)
  show ?thesis
    by (cases io) (simp_all add: get_attendance_by_date_def key)
qed

lemma by_date_rows:
  "\<not> execute_raises io \<Longrightarrow>
     set (fst (get_attendance_by_date store io clk date)) =
       {(u_name u, u_roll_number u, a_time a, a_status a) | a u.
          a \<in> set (attendance store) \<and> u \<in> set (users store) \<and> u_id u = a_user_id a \<and>
          a_date a = resolve date (now_date clk)}"
  by (cases io) (auto simp: get_attendance_by_date_def execute_raises_def set_joined image_iff)

lemma by_date_fault:
  "execute_raises io \<Longrightarrow> fst (get_attendance_by_date store io clk date) = []"
  by (cases io) (simp_all add: get_attendance_by_date_def execute_raises_def)

lemma all_records_sorted:
  "sorted_wrt date_time_desc (fst (get_all_attendance_records store io))"
proof -
  let ?k = "\<lambda>(a, u). (a_date a, a_time a)"
  let ?g = "\<lambda>(a, u). (u_name u, u_roll_number u, a_date a, a_time a, a_status a)"
  have "sorted (map ?k (sort_key ?k (joined store)))"
    by (rule sorted_sort_key)
  then have "sorted_wrt (\<lambda>x y. ?k x \<le> ?k y) (sort_key ?k (joined store))"
    by (simp add: sorted_map)
  then have "sorted_wrt (\<lambda>x y. ?k y \<le> ?k x) (rev (sort_key ?k (joined store)))"
    by (simp add: sorted_wrt_rev)
  then have "sorted_wrt (\<lambda>x y. date_time_desc (?g x) (?g y)) (rev (sort_key ?k (joined store)))"
    by (rule sorted_wrt_mono_rel [rotated])
       (auto simp: date_time_desc_def all_date_def all_time_def less_eq_prod_def)
  then show ?thesis
    by (cases io) (simp_all add: get_all_attendance_records_def sorted_wrt_map)
qed

lemma all_records_fault:
  "execute_raises io \<Longrightarrow> fst (get_all_attendance_records store io) = []"
  by (cases io) (simp_all add: get_all_attendance_records_def execute_raises_def)

lemma all_records_rows:
  "\<not> execute_raises io \<Longrightarrow>
     set (fst (get_all_attendance_records store io)) =
       {(u_name u, u_roll_number u, a_date a, a_time a, a_status a) | a u.
          a \<in> set (attendance store) \<and> u \<in> set (users store) \<and> u_id u = a_user_id a}"
  by (cases io) (auto simp: get_all_attendance_records_def execute_raises_def set_joined image_iff)

text \<open>
  C7. For every store and every date, \<open>get_attendance_by_date\<close> returns the records of
  that date (joined with their users) in ascending order of time, and
  \<open>get_all_attendance_records\<close> returns all records by date descending and, within a
  date, by time descending. When the query raises, both return the empty list.
\<close>

theorem queries_ordered:
  "sorted (map by_date_time (fst (get_attendance_by_date store io clk date))) \<and>
   sorted_wrt date_time_desc (fst (get_all_attendance_records store io)) \<and>
   (\<not> execute_raises io \<longrightarrow>
      set (fst (get_attendance_by_date store io clk date)) =
        {(u_name u, u_roll_number u, a_time a, a_status a) | a u.
           a \<in> set (attendance store) \<and> u \<in> set (users store) \<and> u_id u = a_user_id a \<and>
           a_date a = resolve date (now_date clk)} \<and>
      set (fst (get_all_attendance_records store io)) =
        {(u_name u, u_roll_number u, a_date a, a_time a, a_status a) | a u.
           a \<in> set (attendance store) \<and> u \<in> set (users store) \<and> u_id u = a_user_id a}) \<and>
   (execute_raises io \<longrightarrow>
      fst (get_attendance_by_date store io clk date) = [] \<and>
      fst (get_all_attendance_records store io) = [])"
proof (intro conjI impI)
  show "sorted (map by_date_time (fst (get_attendance_by_date store io clk date)))"
    by (rule by_date_sorted)
  show "sorted_wrt date_time_desc (fst (get_all_attendance_records store io))"
    by (rule all_records_sorted)
next
  assume "\<not> execute_raises io"
  then show "set (fst (get_attendance_by_date store io clk date)) =
        {(u_name u, u_roll_number u, a_time a, a_status a) | a u.
           a \<in> set (attendance store) \<and> u \<in> set (users store) \<and> u_id u = a_user_id a \<and>
           a_date a = resolve date (now_date clk)}"
    and "set (fst (get_all_attendance_records store io)) =
        {(u_name u, u_roll_number u, a_date a, a_time a, a_status a) | a u.
           a \<in> set (attendance store) \<and> u \<in> set (users store) \<and> u_id u = a_user_id a}"
    by (rule by_date_rows, rule all_records_rows)
next
  assume "execute_raises io"
  then show "fst (get_attendance_by_date store io clk date) = []"
    and "fst (get_all_attendance_records store io) = []"
    by (rule by_date_fault, rule all_records_fault)
qed

lemma by_date_example:
  "fst (get_attendance_by_date store_three Healthy morning None) =
     [(''Bob'', ''R200'', ''08:45:10'', ''Present''), (''Alice'', ''R100'', ''09:00:00'', ''Present'')]"
  by (simp add: get_attendance_by_date_def joined_def join_users_def resolve_def
      store_three_def bob_def store_examples)

lemma all_records_example:
  "fst (get_all_attendance_records store_three Healthy) =
     [(''Alice'', ''R100'', ''2024-01-11'', ''09:02:00'', ''Present''),
      (''Alice'', ''R100'', ''2024-01-10'', ''09:00:00'', ''Present''),
      (''Bob'', ''R200'', ''2024-01-10'', ''08:45:10'', ''Present'')]"
  by (simp add: get_all_attendance_records_def joined_def join_users_def 
      store_three_def bob_def store_examples less_eq_prod_def less_prod_def)

theorem queries_ordered_witness:
  "\<not> execute_raises Healthy \<and>
   sorted (map by_date_time
     [(''Bob'', ''R200'', ''08:45:10'', ''Present''), (''Alice'', ''R100'', ''09:00:00'', ''Present'')]) \<and>
   sorted_wrt date_time_desc
     [(''Alice'', ''R100'', ''2024-01-11'', ''09:02:00'', ''Present''),
      (''Alice'', ''R100'', ''2024-01-10'', ''09:00:00'', ''Present''),
      (''Bob'', ''R200'', ''2024-01-10'', ''08:45:10'', ''Present'')]"
proof -
  note q = queries_ordered [where store = store_three and io = Healthy and clk = morning
      and date = None]
  have h: "\<not> execute_raises Healthy"
    by (simp add: execute_raises_def)
  from q have "sorted (map by_date_time (fst (get_attendance_by_date store_three Healthy morning None)))"
    by (rule conjunct1)
  moreover from q
  have "sorted_wrt date_time_desc (fst (get_all_attendance_records store_three Healthy))"
    by (rule conjunct2 [THEN conjunct1])
  ultimately show ?thesis
    using h unfolding by_date_example all_records_example by (intro conjI)
qed

section \<open>Properties of the session\<close>

lemmas session_examples =
  ready_recognizer_def good_env_def alice_face_def late_evening_def after_midnight_def
  late_env_def alice_face_after_midnight_def

lemmas session_defs =
  run_session_def begin_session_def load_recognizer_def get_all_users_def build_label_map_def
  process_face_def init_system_def cache_of_def calls_of_def store_of_def date_of_def

lemma decide_Accepted_iff:
  "decide lm thr l c = Accepted l \<longleftrightarrow> l \<in> dom lm \<and> c < thr"
  by (auto simp: decide_def split: option.splits)

lemma process_face_quiet_ex:
  assumes "decide (label_map s) (recognition_threshold s) (f_label f) (f_confidence f) = Rejected
           \<or> f_label f \<in> marked_today s"
  shows "\<exists>t. process_face s f = Inr t \<and> db t = db s \<and> marked_today t = marked_today s \<and>
           ledger_calls t = ledger_calls s \<and> label_map t = label_map s \<and>
           recognition_threshold t = recognition_threshold s"
  using assms
  by (auto simp: process_face_def decide_def Let_def split: option.splits if_splits)

lemma process_face_quiet:
  assumes "decide (label_map s) (recognition_threshold s) (f_label f) (f_confidence f) = Rejected
           \<or> f_label f \<in> marked_today s"
  obtains t where "process_face s f = Inr t" and "db t = db s"
    and "marked_today t = marked_today s" and "ledger_calls t = ledger_calls s"
    and "label_map t = label_map s" and "recognition_threshold t = recognition_threshold s"
  using process_face_quiet_ex [OF assms] by blast

lemma process_face_call_ex:
  assumes "decide (label_map s) (recognition_threshold s) (f_label f) (f_confidence f)
             = Accepted (f_label f)"
    and "f_label f \<notin> marked_today s"
    and "mark_attendance (db s) (f_io f) (f_clock f) (f_label f) None None
           = Inr (ok, store1, out)"
  shows "\<exists>t. process_face s f = Inr t \<and> db t = store1 \<and>
           ledger_calls t = ledger_calls s @ [(f_label f, ok)] \<and>
           marked_today t = (if ok then insert (f_label f) (marked_today s) else marked_today s) \<and>
           label_map t = label_map s \<and> recognition_threshold t = recognition_threshold s"
  using assms
  by (cases ok) (auto simp: process_face_def decide_def Let_def split: option.splits if_splits)

lemma process_face_call:
  assumes "decide (label_map s) (recognition_threshold s) (f_label f) (f_confidence f)
             = Accepted (f_label f)"
    and "f_label f \<notin> marked_today s"
    and "mark_attendance (db s) (f_io f) (f_clock f) (f_label f) None None
           = Inr (ok, store1, out)"
  obtains t where "process_face s f = Inr t" and "db t = store1"
    and "ledger_calls t = ledger_calls s @ [(f_label f, ok)]"
    and "marked_today t = (if ok then insert (f_label f) (marked_today s) else marked_today s)"
    and "label_map t = label_map s" and "recognition_threshold t = recognition_threshold s"
  using process_face_call_ex [OF assms] by blast

lemma process_face_raise:
  assumes "decide (label_map s) (recognition_threshold s) (f_label f) (f_confidence f)
             = Accepted (f_label f)"
    and "f_label f \<notin> marked_today s"
    and "mark_attendance (db s) (f_io f) (f_clock f) (f_label f) None None = Inl exc"
  shows "process_face s f = Inl exc"
  using assms
  by (auto simp: process_face_def decide_def Let_def split: option.splits if_splits)

lemma process_face_cases:
  obtains (quiet)
      "decide (label_map s) (recognition_threshold s) (f_label f) (f_confidence f) = Rejected
         \<or> f_label f \<in> marked_today s"
  | (called) ok store1 out where
      "decide (label_map s) (recognition_threshold s) (f_label f) (f_confidence f)
         = Accepted (f_label f)"
      "f_label f \<notin> marked_today s"
      "mark_attendance (db s) (f_io f) (f_clock f) (f_label f) None None = Inr (ok, store1, out)"
  | (raised) exc where
      "decide (label_map s) (recognition_threshold s) (f_label f) (f_confidence f)
         = Accepted (f_label f)"
      "f_label f \<notin> marked_today s"
      "mark_attendance (db s) (f_io f) (f_clock f) (f_label f) None None = Inl exc"
proof (cases "decide (label_map s) (recognition_threshold s) (f_label f) (f_confidence f) = Rejected
         \<or> f_label f \<in> marked_today s")
  case True
  then show ?thesis by (rule quiet)
next
  case False
  then have acc: "decide (label_map s) (recognition_threshold s) (f_label f) (f_confidence f)
         = Accepted (f_label f)"
    by (auto simp: decide_def split: option.splits if_splits)
  from False have new: "f_label f \<notin> marked_today s" by simp
  show ?thesis
  proof (cases "mark_attendance (db s) (f_io f) (f_clock f) (f_label f) None None")
    case (Inl exc)
    with acc new show ?thesis by (rule raised)
  next
    case (Inr r)
    then obtain ok store1 out where
      "mark_attendance (db s) (f_io f) (f_clock f) (f_label f) None None = Inr (ok, store1, out)"
      by (cases r) auto
    with acc new show ?thesis by (rule called)
  qed
qed

subsection \<open>The decision\<close>

text \<open>
  C3. The decision for a face is Accepted exactly when the predicted label is a key of the
  label map and the score is strictly below the threshold, and Rejected otherwise; a score
  equal to the threshold is rejected. The decision is a function of the label map, the
  threshold, the label and the score alone, and it is the one \<open>start_attendance\<close> acts on,
  whatever the rest of its state: on Rejected the store, the cache and the calls made are
  left as they were, on Accepted (with the label not yet in the cache) one call of
  \<open>mark_attendance\<close> is made for the label; it returns when the label is within SQLite's
  INTEGER, and an \<open>OverflowError\<close> it raises leaves \<open>start_attendance\<close> too.
\<close>

theorem decide_accepts_iff:
  "(decide lm threshold label score = Accepted label \<longleftrightarrow> label \<in> dom lm \<and> score < threshold) \<and>
   (decide lm threshold label score \<noteq> Accepted label \<longrightarrow> decide lm threshold label score = Rejected) \<and>
   decide lm threshold label threshold = Rejected \<and>
   (decide (label_map s) (recognition_threshold s) (f_label f) (f_confidence f) = Rejected \<longrightarrow>
      (\<exists>t. process_face s f = Inr t \<and> db t = db s \<and> marked_today t = marked_today s \<and>
           ledger_calls t = ledger_calls s)) \<and>
   (decide (label_map s) (recognition_threshold s) (f_label f) (f_confidence f) = Accepted (f_label f)
      \<and> f_label f \<notin> marked_today s \<longrightarrow>
      (sqlite_integer (f_label f) \<longrightarrow>
         (\<exists>ok t. process_face s f = Inr t \<and>
            ledger_calls t = ledger_calls s @ [(f_label f, ok)])) \<and>
      (mark_attendance (db s) (f_io f) (f_clock f) (f_label f) None None = Inl OverflowError
         \<longrightarrow> process_face s f = Inl OverflowError))"
proof (intro conjI impI)
  show "decide lm threshold label score = Accepted label \<longleftrightarrow> label \<in> dom lm \<and> score < threshold"
    by (rule decide_Accepted_iff)
  show "decide lm threshold label threshold = Rejected"
    by (simp add: decide_def)
next
  assume "decide lm threshold label score \<noteq> Accepted label"
  then show "decide lm threshold label score = Rejected"
    by (simp add: decide_def split: option.splits if_splits)
next
  assume "decide (label_map s) (recognition_threshold s) (f_label f) (f_confidence f) = Rejected"
  then have "decide (label_map s) (recognition_threshold s) (f_label f) (f_confidence f) = Rejected
           \<or> f_label f \<in> marked_today s" ..
  then show "\<exists>t. process_face s f = Inr t \<and> db t = db s \<and> marked_today t = marked_today s \<and>
           ledger_calls t = ledger_calls s"
    by (rule process_face_quiet) blast
next
  assume a: "decide (label_map s) (recognition_threshold s) (f_label f) (f_confidence f)
      = Accepted (f_label f) \<and> f_label f \<notin> marked_today s"
    and int: "sqlite_integer (f_label f)"
  from mark_attendance_returns [OF int] obtain ok store1 out where
    run: "mark_attendance (db s) (f_io f) (f_clock f) (f_label f) None None = Inr (ok, store1, out)"
    by blast
  from a [THEN conjunct1] a [THEN conjunct2] run
  show "\<exists>ok t. process_face s f = Inr t \<and> ledger_calls t = ledger_calls s @ [(f_label f, ok)]"
    by (rule process_face_call) blast
next
  assume a: "decide (label_map s) (recognition_threshold s) (f_label f) (f_confidence f)
      = Accepted (f_label f) \<and> f_label f \<notin> marked_today s"
    and raise: "mark_attendance (db s) (f_io f) (f_clock f) (f_label f) None None
      = Inl OverflowError"
  from a [THEN conjunct1] a [THEN conjunct2] raise
  show "process_face s f = Inl OverflowError"
    by (rule process_face_raise)
qed

theorem decide_accepts_iff_witness:
  "decide alice_map 70 1 45 = Accepted 1 \<and>
   decide alice_map 70 1 70 = Rejected \<and>
   decide alice_map 70 1 85 = Rejected \<and>
   decide alice_map 70 2 45 = Rejected \<and>
   1 \<notin> marked_today (loaded_system store_enrolled) \<and> sqlite_integer 1 \<and>
   (\<exists>t. process_face (loaded_system store_enrolled) stranger_face = Inr t \<and> ledger_calls t = []) \<and>
   (\<exists>ok t. process_face (loaded_system store_enrolled) alice_face = Inr t \<and>
      ledger_calls t = [(1, ok)])"
proof -
  have d: "decide alice_map 70 1 45 = Accepted 1" "decide alice_map 70 1 70 = Rejected"
    "decide alice_map 70 1 85 = Rejected" "decide alice_map 70 2 45 = Rejected"
    using decide_accepts_iff [where lm = alice_map and threshold = 70 and label = 1 and score = 45]
      decide_accepts_iff [where lm = alice_map and threshold = 70 and label = 1 and score = 85]
      decide_accepts_iff [where lm = alice_map and threshold = 70 and label = 2 and score = 45]
    by (simp_all add: alice_map_def build_label_map_def dom_def)
  have s: "label_map (loaded_system store_enrolled) = alice_map"
    "recognition_threshold (loaded_system store_enrolled) = 70"
    "ledger_calls (loaded_system store_enrolled) = []"
    "marked_today (loaded_system store_enrolled) = {}"
    by (simp_all add: loaded_system_def init_system_def)
  have i: "sqlite_integer 1"
    by (simp add: sqlite_integer_def)
  have "\<exists>t. process_face (loaded_system store_enrolled) stranger_face = Inr t \<and> ledger_calls t = []"
    using decide_accepts_iff [where s = "loaded_system store_enrolled" and f = stranger_face
        and lm = alice_map and threshold = 70 and label = 1 and score = 85]
      d(3) s
    by (auto simp: stranger_face_def)
  moreover have "\<exists>ok t. process_face (loaded_system store_enrolled) alice_face = Inr t \<and>
      ledger_calls t = [(1, ok)]"
    using decide_accepts_iff [where s = "loaded_system store_enrolled" and f = alice_face
        and lm = alice_map and threshold = 70 and label = 1 and score = 45]
      d(1) s i
    by (auto simp: alice_face_def)
  ultimately show ?thesis using d s i by simp
qed

subsection \<open>Session start\<close>

lemma load_recognizer_keeps:
  "load_recognizer env s = (ok, s1) \<Longrightarrow>
     db s1 = db s \<and> marked_today s1 = marked_today s \<and> ledger_calls s1 = ledger_calls s \<and>
     recognition_threshold s1 = recognition_threshold s \<and> screen s1 = screen s"
  by (auto simp: load_recognizer_def split: if_splits option.splits prod.splits)

lemma begin_session_Started:
  assumes "begin_session env s0 = Started s"
  shows "marked_today (sys s) = {}" and "ledger_calls (sys s) = []" and "db (sys s) = db s0"
    and "today s = now_date (start_clock env)"
  using assms load_recognizer_keeps [of "recognizer env" s0]
  by (auto simp: begin_session_def split: prod.splits if_splits)

text \<open>
  C6. When \<open>start_attendance\<close> reaches its loop (the recognizer loaded and the webcam
  opened), \<open>marked_today\<close> is the empty set, so no identity is in it, whatever
  \<open>marked_today\<close> held before the call and whatever records the store holds; the store is
  as it was.
\<close>

theorem cache_empty_at_session_start:
  assumes "begin_session env s0 = Started s"
  shows "marked_today (sys s) = {} \<and> (\<forall>i. i \<notin> marked_today (sys s)) \<and> db (sys s) = db s0"
  using begin_session_Started [OF assms] by simp

theorem cache_empty_at_session_start_witness:
  "marked_today stale_system = {1, 2} \<and>
   0 < records_for (db stale_system) 1 ''2024-01-10'' \<and>
   cache_of (run_session good_env [] stale_system) = Some {} \<and>
   store_of (run_session good_env [] stale_system) = Some store_marked"
proof -
  obtain ses where b: "begin_session good_env stale_system = Started ses"
    by (simp add: begin_session_def load_recognizer_def get_all_users_def session_examples
        split: prod.splits)
  from cache_empty_at_session_start [OF b]
  have "marked_today (sys ses) = {}" "db (sys ses) = db stale_system"
    by simp_all
  with b show ?thesis
    by (simp add: run_session_def cache_of_def store_of_def stale_system_def init_system_def
        records_for_def store_examples)
qed

text \<open>
  C8, as amended. If no trained model file exists, or creating or reading the recognizer
  raises, \<open>load_recognizer\<close> prints the condition and returns False, and
  \<open>start_attendance\<close> returns at once, before the frame source is opened and whatever
  frames it would have given, with the object otherwise unchanged. If the model file
  exists and loads, \<open>load_recognizer\<close> returns True, whether or not any identity is
  enrolled.
\<close>

theorem recognizer_gate:
  "(\<not> model_file_exists (recognizer env) \<or> load_raises (recognizer env) \<noteq> None \<longrightarrow>
      fst (load_recognizer (recognizer env) s) = False \<and>
      (\<exists>line. (line = NoTrainedModelFound \<or> (\<exists>e. line = ErrorLoadingRecognizer e)) \<and>
         begin_session env s = ReturnedBeforeCapture (s\<lparr>console := console s @ [line]\<rparr>) \<and>
         start_attendance env cs s = Some (Inr (s\<lparr>console := console s @ [line]\<rparr>)))) \<and>
   (model_file_exists (recognizer env) \<and> load_raises (recognizer env) = None \<longrightarrow>
      fst (load_recognizer (recognizer env) s) = True)"
  by (auto simp: load_recognizer_def begin_session_def start_attendance_def
      split: option.splits prod.splits)

theorem recognizer_gate_witness:
  "\<not> model_file_exists (recognizer no_model_env) \<and>
   fst (load_recognizer (recognizer no_model_env) (init_system store_enrolled)) = False \<and>
   start_attendance no_model_env [Frame [alice_face] False] (init_system store_enrolled)
     = Some (Inr ((init_system store_enrolled)\<lparr>console := [NoTrainedModelFound]\<rparr>)) \<and>
   calls_of (run_session no_model_env [Frame [alice_face] False] (init_system store_enrolled)) = None"
proof -
  have h: "\<not> model_file_exists (recognizer no_model_env)"
    by (simp add: no_model_env_def)
  with recognizer_gate [where env = no_model_env and s = "init_system store_enrolled"]
  have "fst (load_recognizer (recognizer no_model_env) (init_system store_enrolled)) = False"
    by blast
  with h show ?thesis
    by (simp add: no_model_env_def start_attendance_def run_session_def begin_session_def
        load_recognizer_def calls_of_def init_system_def)
qed

text \<open>
  The claim as stated fails for a store without users: with a model file that loads,
  \<open>load_recognizer\<close> returns True and the session starts (with an empty label map, so
  that no face is accepted).
\<close>

theorem no_users_still_starts_counterexample:
  "users create_tables = [] \<and>
   fst (load_recognizer ready_recognizer (init_system create_tables)) = True \<and>
   calls_of (run_session good_env [] (init_system create_tables)) = Some [] \<and>
   cache_of (run_session good_env [Frame [alice_face] False] (init_system create_tables)) = Some {}"
  by (simp add: session_defs session_examples store_examples store_defs create_tables_def)

subsection \<open>Invariants of the loop\<close>

lemma process_faces_inv:
  assumes "P s" and "set fs \<subseteq> F"
    and step: "\<And>s f t. f \<in> F \<Longrightarrow> P s \<Longrightarrow> process_face s f = Inr t \<Longrightarrow> P t"
    and "process_faces s fs = Inr t"
  shows "P t"
  using assms(1,2,4)
proof (induction fs arbitrary: s)
  case Nil
  then show ?case by simp
next
  case (Cons f fs)
  from Cons.prems(3) obtain s1 where s1: "process_face s f = Inr s1"
    and rest: "process_faces s1 fs = Inr t"
    by (auto split: sum.splits)
  from Cons.prems(1,2) s1 have "P s1" by (auto intro: step)
  with Cons.IH rest Cons.prems(2) show ?case by simp
qed

lemma attendance_loop_inv:
  assumes "P (sys s)" and "set (faces_seen cs) \<subseteq> F"
    and step: "\<And>s f t. f \<in> F \<Longrightarrow> P s \<Longrightarrow> process_face s f = Inr t \<Longrightarrow> P t"
    and console: "\<And>s c. P s \<Longrightarrow> P (s\<lparr>console := c\<rparr>)"
    and "attendance_loop s cs = Inr t"
  shows "P (sys t)"
  using assms(1,2,5)
proof (induction s cs rule: attendance_loop.induct)
  case (1 s)
  then show ?case by simp
next
  case (2 s cs)
  then show ?case by (auto simp: console)
next
  case (3 s faces quit cs)
  from "3.prems"(2) have sub: "set faces \<subseteq> F"
    by (auto split: if_splits)
  from "3.prems"(3) obtain u where u: "process_faces (sys s) faces = Inr u"
    by (auto split: sum.splits)
  have Pu: "P u"
    using "3.prems"(1) sub step u by (rule process_faces_inv)
  show ?case
  proof (cases quit)
    case True
    with "3.prems"(3) u Pu show ?thesis by (auto simp: Let_def)
  next
    case False
    with "3.prems"(2) have sub': "set (faces_seen cs) \<subseteq> F" by simp
    from "3.prems"(3) u False
    have run: "attendance_loop (s\<lparr>sys := u, frame_count := frame_count s + 1\<rparr>) cs = Inr t"
      by (simp add: Let_def)
    from "3.IH" [OF u refl False _ sub' run] Pu show ?thesis by simp
  qed
qed

lemma attendance_loop_today:
  "attendance_loop s cs = Inr t \<Longrightarrow> today t = today s"
  by (induction s cs arbitrary: t rule: attendance_loop.induct)
     (auto simp: Let_def split: sum.splits if_splits)

lemma run_session_Some:
  assumes "run_session env cs s0 = Some ses"
  obtains s where "begin_session env s0 = Started s" and "attendance_loop s cs = Inr ses"
  using assms by (auto simp: run_session_def split: start_result.splits sum.splits)

text \<open>The cache holds exactly the labels with a call that returned True, once each.\<close>

lemma successes_step:
  assumes inv: "\<forall>i. successes_for s i = (if i \<in> marked_today s then 1 else 0)"
    and run: "process_face s f = Inr t"
  shows "\<forall>i. successes_for t i = (if i \<in> marked_today t then 1 else 0)"
proof (cases rule: process_face_cases [of s f])
  case quiet
  from quiet obtain u where "process_face s f = Inr u" and "db u = db s"
    and "marked_today u = marked_today s" and "ledger_calls u = ledger_calls s"
    by (rule process_face_quiet)
  with inv run show ?thesis by (simp add: successes_for_def)
next
  case (called ok store1 out)
  from inv called(2) have zero: "successes_for s (f_label f) = 0" by simp
  from called show ?thesis
  proof (rule process_face_call)
    fix u
    assume "process_face s f = Inr u"
      and "ledger_calls u = ledger_calls s @ [(f_label f, ok)]"
      and "marked_today u = (if ok then insert (f_label f) (marked_today s) else marked_today s)"
    with run inv zero show ?thesis
      by (cases ok) (auto simp: successes_for_def)
  qed
next
  case (raised exc)
  with run show ?thesis by (simp add: process_face_raise)
qed

lemma no_call_after_success_step:
  assumes inv: "\<forall>i. successes_for s i = (if i \<in> marked_today s then 1 else 0)"
    and tr: "\<forall>xs ys i. ledger_calls s = xs @ (i, True) # ys \<longrightarrow> (\<forall>c \<in> set ys. fst c \<noteq> i)"
    and run: "process_face s f = Inr t"
  shows "\<forall>xs ys i. ledger_calls t = xs @ (i, True) # ys \<longrightarrow> (\<forall>c \<in> set ys. fst c \<noteq> i)"
proof (cases rule: process_face_cases [of s f])
  case quiet
  from quiet obtain u where "process_face s f = Inr u" and "db u = db s"
    and "marked_today u = marked_today s" and "ledger_calls u = ledger_calls s"
    by (rule process_face_quiet)
  with tr run show ?thesis by simp
next
  case (called ok store1 out)
  from called obtain u where "process_face s f = Inr u"
    and "ledger_calls u = ledger_calls s @ [(f_label f, ok)]"
    by (rule process_face_call)
  with run have calls: "ledger_calls t = ledger_calls s @ [(f_label f, ok)]" by simp
  show ?thesis
  proof (intro allI impI)
    fix xs ys i
    assume "ledger_calls t = xs @ (i, True) # ys"
    with calls have eq': "ledger_calls s @ [(f_label f, ok)] = xs @ (i, True) # ys"
      by simp
    show "\<forall>c \<in> set ys. fst c \<noteq> i"
    proof (cases ys rule: rev_cases)
      case Nil
      then show ?thesis by simp
    next
      case (snoc zs z)
      with eq' have old: "ledger_calls s = xs @ (i, True) # zs" and z: "z = (f_label f, ok)"
        by simp_all
      from old tr have zs: "\<forall>c \<in> set zs. fst c \<noteq> i" by blast
      from old have "0 < successes_for s i"
        by (simp add: successes_for_def)
      with inv have "i \<in> marked_today s"
        by (metis less_numeral_extra(3))
      with called(2) have "f_label f \<noteq> i" by auto
      with zs z snoc show ?thesis by auto
    qed
  qed
next
  case (raised exc)
  with run show ?thesis by (simp add: process_face_raise)
qed

text \<open>
  What the cache does bound: within a session at most one call of \<open>mark_attendance\<close>
  returns True for an identity, the identity is in \<open>marked_today\<close> exactly when such a
  call was made, and no call for it follows.
\<close>

lemma one_successful_write_per_session:
  assumes "run_session env cs s0 = Some ses"
  shows "successes_for (sys ses) i \<le> 1 \<and>
         (i \<in> marked_today (sys ses) \<longleftrightarrow> successes_for (sys ses) i = 1) \<and>
         (\<forall>xs ys. ledger_calls (sys ses) = xs @ (i, True) # ys \<longrightarrow> (\<forall>c \<in> set ys. fst c \<noteq> i))"
proof -
  from assms obtain s where s: "begin_session env s0 = Started s" "attendance_loop s cs = Inr ses"
    by (rule run_session_Some)
  let ?P = "\<lambda>t. (\<forall>i. successes_for t i = (if i \<in> marked_today t then 1 else 0)) \<and>
        (\<forall>xs ys i. ledger_calls t = xs @ (i, True) # ys \<longrightarrow> (\<forall>c \<in> set ys. fst c \<noteq> i))"
  have start: "?P (sys s)"
    using begin_session_Started(1,2) [OF s(1)] by (simp add: successes_for_def)
  have "?P (sys ses)"
  proof (rule attendance_loop_inv [where P = ?P and F = UNIV, OF start _ _ _ s(2)])
    show "set (faces_seen cs) \<subseteq> UNIV" by simp
  next
    fix t f u
    assume "?P t" and "process_face t f = Inr u"
    then show "?P u"
      using successes_step [of t f u] no_call_after_success_step [of t f u] by blast
  next
    fix t c
    assume "?P t"
    then show "?P (t\<lparr>console := c\<rparr>)"
      by (simp add: successes_for_def)
  qed
  then have A: "successes_for (sys ses) i = (if i \<in> marked_today (sys ses) then 1 else 0)"
    and B: "\<forall>xs ys. ledger_calls (sys ses) = xs @ (i, True) # ys
              \<longrightarrow> (\<forall>c \<in> set ys. fst c \<noteq> i)"
    by blast+
  then show ?thesis by auto
qed

subsection \<open>A write that returns False\<close>

text \<open>
  C4. The claim asks for at most one call of \<open>mark_attendance\<close> per identity and
  session, also for an identity recorded in an earlier session of the same date. The code
  adds a label to \<open>marked_today\<close> in the success branch only, so for such an identity
  every frame that accepts it makes another call: here two frames make two calls, each
  returning False.
\<close>

theorem second_session_repeats_calls:
  "calls_of (run_session good_env [Frame [alice_face] False, Frame [alice_face] False]
      (init_system store_marked)) = Some [(1, False), (1, False)]"
  by (simp add: session_defs session_examples store_examples store_defs)

text \<open>
  C5. The claim asks that an identity whose call of \<open>mark_attendance\<close> returns False is
  added to \<open>marked_today\<close> all the same. The branch of the code that draws "Already
  Marked" adds nothing: after a frame whose call returned False the cache is still empty.
\<close>

theorem already_recorded_not_cached:
  "calls_of (run_session good_env [Frame [alice_face] False] (init_system store_marked))
     = Some [(1, False)] \<and>
   cache_of (run_session good_env [Frame [alice_face] False] (init_system store_marked))
     = Some {}"
  by (simp add: session_defs session_examples store_examples store_defs)

subsection \<open>The cache and the store\<close>





end
